theory Spec2Isabelle
  imports Complex_Main "HOL-Library.Word"
begin

section \<open>The record contract and the ring buffer\<close>

text \<open>
  Modelled from the spec: the record contract. The element type \<open>T\<close> of the queue models
  is a template parameter whose declaration is not among the sources. The lookup reads two
  accessors of it: \<open>get_first_timestamp()\<close>, an integer tick count that the code stores
  into a \<open>uint64_t\<close>, and \<open>get_num_frames()\<close>, an unsigned count that the emulator
  compares against a \<open>size_t\<close> counter and that is taken to be a \<open>size_t\<close> here. The
  type-level constant \<open>T::expected_tick_difference\<close>, an unsigned 64-bit tick count, is the
  parameter \<open>expected_tick_difference\<close> of the lookup functions below.
\<close>

record element =
  get_first_timestamp :: "64 word"
  get_num_frames :: "64 word"

text \<open>
  Modelled from the spec: the ring buffer \<open>IterableQueueModel<T>\<close>, whose declaration is
  not among the sources: a storage of fixed capacity, a read cursor and a write cursor.
  The lookup reads its members \<open>size_\<close> (compared with a \<open>uint32_t\<close>), \<open>records_\<close>,
  \<open>readIndex_\<close> (loaded into an \<open>unsigned int\<close>) and, through \<open>occupancy()\<close>,
  \<open>writeIndex_\<close>. Isabelle names cannot end in an underscore, and \<open>size\<close> is a HOL
  constant, hence \<open>size_q\<close>.
\<close>

record queue =
  size_q :: "32 word"
  records :: "element list"
  readIndex :: "32 word"
  writeIndex :: "32 word"

text \<open>
  Modelled from the spec: the Iterator of \<open>IterableQueueModel\<close>, not among the sources,
  is a position in \<open>[0, capacity)\<close> or the distinguished sentinel returned by \<open>end()\<close>.
\<close>

datatype iterator = Iterator (index: "32 word") | End

text \<open>
  The two ways the C++ arithmetic leaves defined behaviour: reading \<open>records_\<close> outside
  the allocated storage and dividing by zero.
\<close>

datatype fault = OutOfBounds | DivisionByZero

text \<open>A lookup returns its outcome together with the queue state it leaves behind.\<close>

type_synonym lookup = "(fault + iterator) \<times> queue"

text \<open>
  Modelled from the spec: \<open>IterableQueueModel::occupancy()\<close> is a snapshot read of
  \<open>(write - read) mod capacity\<close>, returned as a \<open>size_t\<close>.
\<close>

definition occupancy :: "queue \<Rightarrow> 64 word" where
  "occupancy q =
     word_of_int ((uint (writeIndex q) - uint (readIndex q)) mod uint (size_q q))"

text \<open>Modelled from the spec: \<open>IterableQueueModel::end()\<close> is the sentinel position.\<close>

definition end_q :: "queue \<Rightarrow> iterator" where
  "end_q q = End"

section \<open>Fixed-rate lookup\<close>

text \<open>
  \<open>FixedRateQueueModel<T>::lower_bound\<close>. The parameter \<open>base\<close> is the inherited
  \<open>BinarySearchQueueModel<T>::lower_bound\<close>. The quotient \<open>time_tick_diff\<close> is stored in
  an \<open>int64_t\<close> and converted back to unsigned for the division by the \<open>size_t\<close> frame
  count, so both divisions are unsigned 64-bit divisions; the result is then truncated to
  \<open>uint32_t\<close>, and the index sum is a 32-bit sum.
\<close>

definition FixedRateQueueModel_lower_bound ::
  "(queue \<Rightarrow> element \<Rightarrow> bool \<Rightarrow> lookup) \<Rightarrow> 64 word \<Rightarrow> queue \<Rightarrow> element \<Rightarrow> bool \<Rightarrow> lookup"
where
  "FixedRateQueueModel_lower_bound base expected_tick_difference q element with_errors =
     (if with_errors then base q element with_errors
      else
        let timestamp = get_first_timestamp element;
            start_index = readIndex q;
            occupancy_guess = occupancy q
        in if length (records q) \<le> unat start_index then (Inl OutOfBounds, q)
           else
             let last_ts = get_first_timestamp (records q ! unat start_index);
                 newest_ts = last_ts + occupancy_guess * expected_tick_difference
                               * get_num_frames (records q ! unat start_index)
             in if last_ts > timestamp \<or> timestamp > newest_ts then (Inr (end_q q), q)
                else if expected_tick_difference = 0 then (Inl DivisionByZero, q)
                else
                  let time_tick_diff = (timestamp - last_ts) div expected_tick_difference
                  in if get_num_frames (records q ! unat start_index) = 0
                     then (Inl DivisionByZero, q)
                     else
                       let num_element_offset =
                             (ucast (time_tick_diff
                                div get_num_frames (records q ! unat start_index)) :: 32 word);
                           target_index = start_index + num_element_offset;
                           target_index = (if target_index \<ge> size_q q
                                           then target_index - size_q q else target_index)
                       in (Inr (Iterator target_index), q))"

section \<open>Binary-search lookup\<close>

text \<open>
  The retained records are those at the logical positions \<open>0 ..< occupancy\<close>; logical
  position \<open>k\<close> lives in the physical slot \<open>(read + k) mod capacity\<close>.
\<close>

definition physical :: "queue \<Rightarrow> nat \<Rightarrow> nat" where
  "physical q k = (unat (readIndex q) + k) mod unat (size_q q)"

definition retained :: "queue \<Rightarrow> element list" where
  "retained q = map (\<lambda>k. records q ! physical q k) [0..<unat (occupancy q)]"

text \<open>
  The classic leftmost binary search over the logical range \<open>[lo, hi)\<close>: the first position
  whose timestamp is not below the target, or \<open>hi\<close> when there is none.
\<close>

function leftmost :: "(nat \<Rightarrow> 64 word) \<Rightarrow> 64 word \<Rightarrow> nat \<Rightarrow> nat \<Rightarrow> nat" where
  "leftmost ts target lo hi =
     (if lo < hi
      then let mid = (lo + hi) div 2
           in if ts mid < target then leftmost ts target (Suc mid) hi
              else leftmost ts target lo mid
      else lo)"
  by pat_completeness auto
termination
  by (relation "measure (\<lambda>(ts, target, lo, hi). hi - lo)") auto

declare leftmost.simps [simp del]

text \<open>
  Modelled from the spec: \<open>BinarySearchQueueModel<T>::lower_bound\<close>, whose source is
  missing. Without errors it is a binary search over the logical range \<open>[0, occupancy)\<close>
  mapped onto physical positions, narrowing to the leftmost position whose timestamp is at
  least the target, and \<open>end()\<close> when the target precedes the oldest or exceeds the newest
  retained timestamp (the spec leaves open, in its design notes, which record a target
  strictly between two record timestamps belongs to; this follows the wording of its
  description of the binary search). With errors it is a linear scan over the valid range that skips the
  entries failing the collaborator's trustworthiness check \<open>trustworthy\<close> and returns the
  first trustworthy record whose timestamp is at least the target.
\<close>

definition BinarySearchQueueModel_lower_bound ::
  "(element \<Rightarrow> bool) \<Rightarrow> queue \<Rightarrow> element \<Rightarrow> bool \<Rightarrow> lookup"
where
  "BinarySearchQueueModel_lower_bound trustworthy q element with_errors =
     (let target = get_first_timestamp element;
          occ = unat (occupancy q);
          ts = (\<lambda>k. get_first_timestamp (records q ! physical q k))
      in if with_errors
         then (case find (\<lambda>k. trustworthy (records q ! physical q k) \<and> target \<le> ts k)
                      [0..<occ] of
                 None \<Rightarrow> (Inr (end_q q), q)
               | Some k \<Rightarrow> (Inr (Iterator (of_nat (physical q k))), q))
         else if occ = 0 \<or> target < ts 0 \<or> ts (occ - 1) < target then (Inr (end_q q), q)
         else (Inr (Iterator (of_nat (physical q (leftmost ts target 0 occ)))), q))"

section \<open>Well-formed queues and sample data\<close>

text \<open>
  The invariant of the ring buffer that the lookup relies on: the storage holds \<open>size_\<close>
  records and both cursors point into it.
\<close>

definition wf_queue :: "queue \<Rightarrow> bool" where
  "wf_queue q \<longleftrightarrow>
     length (records q) = unat (size_q q) \<and> readIndex q < size_q q \<and> writeIndex q < size_q q"

text \<open>
  Uniformly spaced data, for a list of records in cursor order: every record holds the
  frame count of the first one, and record \<open>k\<close> starts exactly \<open>k\<close> record spans
  (\<open>expected_tick_difference\<close> times the frame count) after the first, as natural numbers,
  that is, without wrapping around 64 bits.
\<close>

definition uniformly_spaced :: "64 word \<Rightarrow> element list \<Rightarrow> bool" where
  "uniformly_spaced expected_tick_difference rs \<longleftrightarrow>
     (\<forall>k \<in> {0..<length rs}.
        get_num_frames (rs ! k) = get_num_frames (rs ! 0) \<and>
        unat (get_first_timestamp (rs ! k))
          = unat (get_first_timestamp (rs ! 0))
            + k * (unat expected_tick_difference * unat (get_num_frames (rs ! 0))))"

text \<open>
  A sample buffer of capacity 8 whose retained range wraps around the end of the storage:
  the slots 6, 7, 0, 1 hold records with first timestamps 100, 120, 140, 160, two frames
  each, ten ticks apart. The second sample is the same storage with nothing retained.
\<close>

definition frame :: "64 word \<Rightarrow> element" where
  "frame ts = \<lparr>get_first_timestamp = ts, get_num_frames = 2\<rparr>"

definition example_queue :: queue where
  "example_queue =
     \<lparr>size_q = 8,
      records = map frame [140, 160, 0, 0, 0, 0, 100, 120],
      readIndex = 6,
      writeIndex = 2\<rparr>"

definition empty_queue :: queue where
  "empty_queue = example_queue\<lparr>writeIndex := 6\<rparr>"

section \<open>The recorder's worker loop\<close>

text \<open>
  \<open>RecorderImpl<ReadoutType>::do_work\<close>. The worker thread shares the run marker with
  \<open>do_stop\<close>, the input queue with its producer and the file with the operating system;
  what it observes of them in one pass of the loop is an \<open>observation\<close>: the value of
  \<open>m_run_marker\<close> at the loop test, the outcome of \<open>pop\<close> and the value \<open>write\<close>
  returns if it is called.

  Modelled from the spec: \<open>pop\<close> of the input queue waits up to the timeout and yields
  a record or the timeout outcome, here the exception \<open>QueueTimeoutExpired\<close> that
  \<open>do_work\<close> catches; \<open>BufferedFileWriter::write\<close>, not among the sources, appends the
  record to the output file and returns whether it succeeded.
\<close>

datatype 'a pop_result = Popped 'a | QueueTimeoutExpired

record 'a observation =
  run_marker :: bool
  pop :: "'a pop_result"
  write_ok :: bool

text \<open>
  The members \<open>do_work\<close> changes: the two counters (\<open>std::atomic<int>\<close>, which wrap
  around) and the buffered writer, represented by the \<open>write\<close> calls made on it, each with
  the record passed and the value returned, and whether it has been flushed.
\<close>

record 'a recorder =
  m_packets_processed_total :: "32 word"
  m_packets_processed_since_last_info :: "32 word"
  m_buffered_writer :: "('a \<times> bool) list"
  flushed :: bool

text \<open>The body of the \<open>while\<close> loop ends in \<open>continue\<close> (or falls through) or in \<open>break\<close>.\<close>

datatype control = Continue | Break

definition do_work_iteration :: "'a pop_result \<Rightarrow> bool \<Rightarrow> 'a recorder \<Rightarrow> control \<times> 'a recorder" where
  "do_work_iteration popped ok r =
     (case popped of
        QueueTimeoutExpired \<Rightarrow> (Continue, r)
      | Popped element \<Rightarrow>
          let r1 = r\<lparr>m_packets_processed_total := m_packets_processed_total r + 1\<rparr>;
              r2 = r1\<lparr>m_packets_processed_since_last_info :=
                        m_packets_processed_since_last_info r1 + 1\<rparr>;
              r3 = r2\<lparr>m_buffered_writer := m_buffered_writer r2 @ [(element, ok)]\<rparr>
          in if \<not> ok then (Break, r3) else (Continue, r3))"

text \<open>
  The loop over the observations the worker makes, one per pass, followed by the final
  \<open>flush\<close>. The first component of the result tells whether the loop has been left; a
  list of observations that runs out leaves the worker inside the loop.
\<close>

fun do_work :: "'a observation list \<Rightarrow> 'a recorder \<Rightarrow> bool \<times> 'a recorder" where
  "do_work [] r = (False, r)"
| "do_work (ob # obs) r =
     (if \<not> run_marker ob then (True, r\<lparr>flushed := True\<rparr>)
      else case do_work_iteration (pop ob) (write_ok ob) r of
             (Break, r') \<Rightarrow> (True, r'\<lparr>flushed := True\<rparr>)
           | (Continue, r') \<Rightarrow> do_work obs r')"

definition idle :: "nat recorder" where
  "idle = \<lparr>m_packets_processed_total = 0, m_packets_processed_since_last_info = 0,
            m_buffered_writer = [], flushed = False\<rparr>"

section \<open>The source emulator's dropout table and producer loop\<close>

text \<open>
  The part of \<open>SourceEmulatorModel<ReadoutType>::conf\<close> that builds \<open>m_dropouts\<close>: one
  entry when the dropout rate is zero, \<open>random_population_size\<close> entries otherwise, entry
  \<open>i\<close> telling whether the \<open>i\<close>-th draw \<open>dis i\<close> of the uniform distribution on
  \<open>[0, 1)\<close> is at least the rate. The doubles are only compared, so they are modelled as
  real numbers.
\<close>

definition conf_m_dropouts :: "real \<Rightarrow> nat \<Rightarrow> (nat \<Rightarrow> real) \<Rightarrow> bool list" where
  "conf_m_dropouts m_dropout_rate random_population_size dis =
     (let m_dropouts_length = random_population_size;
          size_m_dropouts = (if m_dropout_rate = 0 then 1 else m_dropouts_length)
      in map (\<lambda>i. dis i \<ge> m_dropout_rate) [0..<size_m_dropouts])"

text \<open>
  What \<open>run_produce\<close> reads and changes: the members \<open>m_time_tick_diff\<close>, \<open>m_dropouts\<close>,
  the two packet counters and the sink, represented by the payloads pushed to it, each
  given by the offset of the record copied from the file buffer and the timestamp stamped
  on it; the size of the file buffer in bytes and in records and \<open>sizeof(ReadoutType)\<close>;
  and the locals \<open>offset\<close> (\<open>uint\<close>), \<open>timestamp\<close> and \<open>dropout_index\<close> (an \<open>int\<close> that
  stays below the table's length).
\<close>

record producer =
  m_time_tick_diff :: "64 word"
  m_dropouts :: "bool list"
  num_elem :: "32 word"
  sizeof_ReadoutType :: "64 word"
  source_size :: "64 word"
  m_packet_count :: "32 word"
  m_packet_count_tot :: "32 word"
  m_raw_data_sink :: "(32 word \<times> 64 word) list"
  offset :: "32 word"
  timestamp :: "64 word"
  dropout_index :: nat

text \<open>
  One pass of the \<open>while\<close> loop. Reading \<open>m_dropouts\<close> outside the table is a fault,
  and so is the \<open>memcpy\<close> of \<open>sizeof(ReadoutType)\<close> bytes from position
  \<open>offset * sizeof(ReadoutType)\<close> of the file buffer when they do not all lie inside its
  \<open>source.size()\<close> bytes, as with an empty or short sample file. A push that times out
  is caught and logged, and the pass goes on as after a push that succeeds. The error bits
  stamped on the payload play no part in what is pushed when, and are left out.
\<close>

definition run_produce_iteration :: "producer \<Rightarrow> fault + producer" where
  "run_produce_iteration s =
     (let offset1 = (if ucast (offset s) = scast (num_elem s) * sizeof_ReadoutType s \<or>
                        ucast (offset s + 1) * sizeof_ReadoutType s > source_size s
                     then 0 else offset s)
      in if length (m_dropouts s) \<le> dropout_index s then Inl OutOfBounds
         else
           let create_frame = m_dropouts s ! dropout_index s;
               dropout_index1 = (dropout_index s + 1) mod length (m_dropouts s)
           in if create_frame \<and>
                 unat (source_size s)
                   < unat (ucast offset1 * sizeof_ReadoutType s) + unat (sizeof_ReadoutType s)
              then Inl OutOfBounds
              else
                let s1 = (if create_frame
                          then s\<lparr>m_raw_data_sink := m_raw_data_sink s @ [(offset1, timestamp s)],
                                  offset := offset1 + 1,
                                  m_packet_count := m_packet_count s + 1,
                                  m_packet_count_tot := m_packet_count_tot s + 1\<rparr>
                          else s\<lparr>offset := offset1\<rparr>)
                in Inr (s1\<lparr>dropout_index := dropout_index1,
                            timestamp := timestamp s + m_time_tick_diff s * 12\<rparr>))"

text \<open>
  The loop, over the values of \<open>m_run_marker\<close> the producer reads at the loop test; it
  ends at the first cleared one. The state it starts from holds the locals as the code sets
  them before the loop: \<open>offset\<close> 0, \<open>dropout_index\<close> 0 and \<open>timestamp\<close> the configured
  or the file's first timestamp.
\<close>

fun run_produce :: "bool list \<Rightarrow> producer \<Rightarrow> fault + producer" where
  "run_produce [] s = Inr s"
| "run_produce (m_run_marker # later) s =
     (if \<not> m_run_marker then Inr s
      else case run_produce_iteration s of
             Inl f \<Rightarrow> Inl f
           | Inr s' \<Rightarrow> run_produce later s')"

definition replay :: producer where
  "replay = \<lparr>m_time_tick_diff = 25, m_dropouts = conf_m_dropouts 0 10000 (\<lambda>i. 1 / 2),
             num_elem = 2, sizeof_ReadoutType = 464, source_size = 928,
             m_packet_count = 0, m_packet_count_tot = 0, m_raw_data_sink = [],
             offset = 0, timestamp = 1000, dropout_index = 0\<rparr>"

text \<open>
  The file buffer holds at least one whole record and fewer than \<open>2^32 - 1\<close> of them,
  a record is smaller than \<open>2^32\<close> bytes, and the record at \<open>offset\<close> starts inside the
  buffer. Under these conditions neither \<open>offset + 1\<close> nor the byte positions wrap around.
\<close>

definition whole_records :: "producer \<Rightarrow> bool" where
  "whole_records s \<longleftrightarrow>
     0 < unat (sizeof_ReadoutType s) \<and>
     unat (sizeof_ReadoutType s) < 4294967296 \<and>
     unat (sizeof_ReadoutType s) \<le> unat (source_size s) \<and>
     unat (source_size s) div unat (sizeof_ReadoutType s) < 4294967295 \<and>
     unat (offset s) * unat (sizeof_ReadoutType s) \<le> unat (source_size s)"

section \<open>Arithmetic of the fast path\<close>

lemma pow64: "(2::nat) ^ 64 = 18446744073709551616" by simp
lemma pow32: "(2::nat) ^ 32 = 4294967296" by simp
lemma pow31: "(2::nat) ^ 31 = 2147483648" by simp

lemma div_div_le:
  fixes x :: nat
  assumes "x \<le> n * d * f" "0 < d" "0 < f"
  shows "x div d div f \<le> n"
proof -
  have "x div d \<le> (n * f * d) div d"
    using assms(1) by (intro div_le_mono) (simp add: mult_ac)
  also have "\<dots> = n * f" using assms(2) by simp
  finally have "x div d div f \<le> (n * f) div f" by (rule div_le_mono)
  also have "\<dots> = n" using assms(3) by simp
  finally show ?thesis .
qed

lemma unat_newest_ts:
  fixes last_ts occ etd fpr :: "64 word"
  shows "unat (last_ts + occ * etd * fpr)
           = (unat last_ts + unat occ * unat etd * unat fpr) mod 18446744073709551616"
proof -
  have "unat (last_ts + occ * etd * fpr)
          = (unat last_ts + unat occ * unat etd * unat fpr) mod 2 ^ 64"
    by (simp add: unat_word_ariths mod_simps)
  then show ?thesis by simp
qed

lemma in_range_span:
  fixes last_ts occ etd fpr t :: "64 word"
  assumes "\<not> (last_ts > t \<or> t > last_ts + occ * etd * fpr)"
  shows "unat t - unat last_ts \<le> unat occ * unat etd * unat fpr"
proof -
  define L where "L = unat last_ts"
  define P where "P = unat occ * unat etd * unat fpr"
  define T where "T = unat t"
  have L: "L < 18446744073709551616" using unsigned_less [of last_ts, where ?'a = nat] by (simp add: L_def)
  have lo: "L \<le> T" using assms by (simp add: L_def T_def word_le_nat_alt not_less)
  have hi: "T \<le> (L + P) mod 18446744073709551616"
    using assms by (simp add: T_def L_def P_def word_le_nat_alt not_less unat_newest_ts [symmetric])
  have "(L + P) mod 18446744073709551616 \<le> L + P" by (rule mod_less_eq_dividend)
  with hi have "T \<le> L + P" by linarith
  then show ?thesis unfolding L_def P_def T_def by linarith
qed

lemma unat_offset:
  fixes last_ts etd fpr t :: "64 word"
  assumes "last_ts \<le> t"
  shows "unat ((t - last_ts) div etd div fpr) = (unat t - unat last_ts) div unat etd div unat fpr"
  using assms by (simp add: unat_div unat_sub)

lemma in_range_offset_le_occupancy:
  fixes last_ts occ etd fpr t :: "64 word"
  assumes "\<not> (t < last_ts \<or> last_ts + occ * etd * fpr < t)" "etd \<noteq> 0" "fpr \<noteq> 0"
  shows "(unat t - unat last_ts) div unat etd div unat fpr \<le> unat occ"
proof -
  have "unat t - unat last_ts \<le> unat occ * unat etd * unat fpr"
    using assms(1) by (rule in_range_span)
  moreover have "0 < unat etd" using assms(2) by (simp add: unat_gt_0)
  moreover have "0 < unat fpr" using assms(3) by (simp add: unat_gt_0)
  ultimately show ?thesis by (rule div_div_le)
qed

lemma unat_word_of_int_small:
  assumes "0 \<le> x" "x < 18446744073709551616"
  shows "unat (word_of_int x :: 64 word) = nat x"
proof -
  have "uint (word_of_int x :: 64 word) = x mod 2 ^ 64"
    by (simp add: uint_word_of_int)
  also have "\<dots> = x" using assms by (intro mod_pos_pos_trivial) simp_all
  finally show ?thesis by (simp only: unat_eq_nat_uint)
qed

lemma size_pos: "wf_queue q \<Longrightarrow> 0 < unat (size_q q)"
  by (auto simp: wf_queue_def word_less_nat_alt)

lemma read_lt_size: "wf_queue q \<Longrightarrow> unat (readIndex q) < unat (size_q q)"
  by (simp add: wf_queue_def word_less_nat_alt)

lemma read_in_storage: "wf_queue q \<Longrightarrow> unat (readIndex q) < length (records q)"
  by (simp add: wf_queue_def word_less_nat_alt)

lemma size_lt_2p32: "unat (size_q q) < 4294967296"
  using unsigned_less [of "size_q q", where ?'a = nat] by simp

lemma unat_occupancy:
  assumes "wf_queue q"
  shows "unat (occupancy q)
           = nat ((uint (writeIndex q) - uint (readIndex q)) mod uint (size_q q))"
proof -
  let ?m = "(uint (writeIndex q) - uint (readIndex q)) mod uint (size_q q)"
  have "0 < unat (size_q q)" using assms by (rule size_pos)
  then have pos: "0 < uint (size_q q)" by (simp only: unat_eq_nat_uint zero_less_nat_eq)
  have lo: "0 \<le> ?m" using pos by (rule pos_mod_sign)
  have "?m < uint (size_q q)" using pos by (rule pos_mod_bound)
  moreover have "uint (size_q q) < 4294967296" using uint_lt2p [of "size_q q"] by simp
  ultimately have hi: "?m < 18446744073709551616" by linarith
  show ?thesis unfolding occupancy_def using lo hi by (rule unat_word_of_int_small)
qed

lemma occupancy_lt_size:
  assumes "wf_queue q"
  shows "unat (occupancy q) < unat (size_q q)"
proof -
  let ?m = "(uint (writeIndex q) - uint (readIndex q)) mod uint (size_q q)"
  have "0 < unat (size_q q)" using assms by (rule size_pos)
  then have pos: "0 < uint (size_q q)" by (simp only: unat_eq_nat_uint zero_less_nat_eq)
  have lo: "0 \<le> ?m" using pos by (rule pos_mod_sign)
  have "?m < uint (size_q q)" using pos by (rule pos_mod_bound)
  then have a: "nat ?m < nat (uint (size_q q))" using lo by linarith
  have b: "unat (size_q q) = nat (uint (size_q q))" by (rule unat_eq_nat_uint)
  show ?thesis unfolding unat_occupancy [OF assms] b using a .
qed

lemma unat_index_sum:
  fixes start_index :: "32 word" and off :: "64 word"
  shows "unat (start_index + ucast off) = (unat start_index + unat off) mod 4294967296"
proof -
  have "unat (start_index + (ucast off :: 32 word))
          = (unat start_index + unat off mod 2 ^ 32) mod 2 ^ 32"
    by (simp add: unat_word_ariths unsigned_ucast_eq take_bit_eq_mod)
  also have "\<dots> = (unat start_index + unat off) mod 2 ^ 32"
    by (simp add: mod_simps)
  finally show ?thesis by simp
qed

lemma wrap_once:
  fixes s c :: "32 word"
  shows "unat (if c \<le> s then s - c else s) = (if unat c \<le> unat s then unat s - unat c else unat s)"
  by (simp add: word_le_nat_alt unat_sub)

lemma wrapped_index_lt:
  fixes S off C :: nat
  assumes "S < C" "off < C" "C < 4294967296"
  shows "(let s = (S + off) mod 4294967296 in if C \<le> s then s - C else s) < C"
proof (cases "S + off < 4294967296")
  case True
  then have "(S + off) mod 4294967296 = S + off" by simp
  moreover have "C \<le> S + off \<longrightarrow> S + off - C < C" using assms by arith
  ultimately show ?thesis using assms by (simp add: Let_def)
next
  case False
  then have "(S + off) mod 4294967296 = S + off - 4294967296"
    using assms by (simp add: mod_if)
  then show ?thesis using assms False by (simp add: Let_def)
qed

lemma wrap_is_mod:
  fixes S off C :: nat
  assumes "S < C" "off < C" "C \<le> 2147483648"
  shows "(let s = (S + off) mod 4294967296 in if C \<le> s then s - C else s) = (S + off) mod C"
proof -
  have "S + off < 4294967296" using assms by linarith
  then have s: "(S + off) mod 4294967296 = S + off" by simp
  have "S + off < 2 * C" using assms by linarith
  then have "(S + off) mod C = (if C \<le> S + off then S + off - C else S + off)"
    by (simp add: mod_if)
  then show ?thesis by (simp add: Let_def s)
qed

section \<open>The retained records\<close>

lemma length_retained: "length (retained q) = unat (occupancy q)"
  by (simp add: retained_def)

lemma nth_retained: "k < unat (occupancy q) \<Longrightarrow> retained q ! k = records q ! physical q k"
  by (simp add: retained_def)

lemma physical_0: "wf_queue q \<Longrightarrow> physical q 0 = unat (readIndex q)"
  using read_lt_size [of q] by (simp add: physical_def)

lemma physical_lt_size: "wf_queue q \<Longrightarrow> physical q k < unat (size_q q)"
  using size_pos [of q] by (simp add: physical_def)

lemma unat_of_nat_physical:
  assumes "wf_queue q"
  shows "unat (of_nat (physical q k) :: 32 word) = physical q k"
proof -
  have "physical q k < 4294967296"
    using physical_lt_size [OF assms, of k] size_lt_2p32 [of q] by linarith
  then show ?thesis by (simp add: unat_of_nat)
qed

lemma hd_retained:
  assumes "wf_queue q" "retained q \<noteq> []"
  shows "hd (retained q) = records q ! unat (readIndex q)"
proof -
  have "length (retained q) \<noteq> 0" using assms(2) by simp
  then have "0 < unat (occupancy q)" by (simp only: length_retained neq0_conv)
  then have "retained q ! 0 = records q ! physical q 0" by (rule nth_retained)
  then show ?thesis using assms by (simp add: hd_conv_nth physical_0)
qed

lemma last_retained:
  assumes "retained q \<noteq> []"
  shows "last (retained q) = retained q ! (unat (occupancy q) - 1)"
  using assms by (simp add: last_conv_nth length_retained)

lemma uniform_timestamp:
  assumes "uniformly_spaced expected_tick_difference (retained q)" "k < unat (occupancy q)"
  shows "unat (get_first_timestamp (records q ! physical q k))
           = unat (get_first_timestamp (retained q ! 0))
             + k * (unat expected_tick_difference * unat (get_num_frames (retained q ! 0)))"
proof -
  have "k \<in> {0..<length (retained q)}" using assms(2) by (simp add: length_retained)
  with assms(1) have "unat (get_first_timestamp (retained q ! k))
           = unat (get_first_timestamp (retained q ! 0))
             + k * (unat expected_tick_difference * unat (get_num_frames (retained q ! 0)))"
    unfolding uniformly_spaced_def by blast
  then show ?thesis unfolding nth_retained [OF assms(2)] .
qed

lemma uniform_window:
  assumes wf: "wf_queue q"
    and uni: "uniformly_spaced expected_tick_difference (retained q)"
    and ne: "retained q \<noteq> []"
  shows "0 < unat (occupancy q)"
    and "retained q ! 0 = records q ! unat (readIndex q)"
    and "unat (get_first_timestamp (last (retained q)))
           = unat (get_first_timestamp (records q ! unat (readIndex q)))
             + (unat (occupancy q) - 1)
               * (unat expected_tick_difference
                  * unat (get_num_frames (records q ! unat (readIndex q))))"
proof -
  have "length (retained q) \<noteq> 0" using ne by simp
  then show pos: "0 < unat (occupancy q)" by (simp only: length_retained neq0_conv)
  then show r0: "retained q ! 0 = records q ! unat (readIndex q)"
    using nth_retained [of 0 q] physical_0 [OF wf] by simp
  have m: "unat (occupancy q) - 1 < unat (occupancy q)" using pos by simp
  have "last (retained q) = records q ! physical q (unat (occupancy q) - 1)"
    unfolding last_retained [OF ne] using m by (rule nth_retained)
  then show "unat (get_first_timestamp (last (retained q)))
           = unat (get_first_timestamp (records q ! unat (readIndex q)))
             + (unat (occupancy q) - 1)
               * (unat expected_tick_difference
                  * unat (get_num_frames (records q ! unat (readIndex q))))"
    using uniform_timestamp [OF uni m] unfolding r0 by simp
qed

section \<open>The fast path in and out of its window\<close>

lemma fast_path_unfold:
  assumes "unat (readIndex q) < length (records q)"
    and "expected_tick_difference \<noteq> 0"
    and "get_num_frames (records q ! unat (readIndex q)) \<noteq> 0"
  shows "FixedRateQueueModel_lower_bound base expected_tick_difference q element False =
    (let t = get_first_timestamp element;
         last_ts = get_first_timestamp (records q ! unat (readIndex q));
         fpr = get_num_frames (records q ! unat (readIndex q));
         s = readIndex q + ucast ((t - last_ts) div expected_tick_difference div fpr)
     in if t < last_ts \<or> last_ts + occupancy q * expected_tick_difference * fpr < t
        then (Inr End, q)
        else (Inr (Iterator (if size_q q \<le> s then s - size_q q else s)), q))"
  using assms by (simp add: FixedRateQueueModel_lower_bound_def Let_def end_q_def)

lemma fast_path_end_iff:
  assumes "unat (readIndex q) < length (records q)"
  shows "fst (FixedRateQueueModel_lower_bound base expected_tick_difference q element False) = Inr End
     \<longleftrightarrow> get_first_timestamp element < get_first_timestamp (records q ! unat (readIndex q)) \<or>
         get_first_timestamp (records q ! unat (readIndex q))
           + occupancy q * expected_tick_difference
             * get_num_frames (records q ! unat (readIndex q)) < get_first_timestamp element"
  using assms by (simp add: FixedRateQueueModel_lower_bound_def Let_def end_q_def)

lemma fast_path_out_of_range:
  assumes "unat (readIndex q) < length (records q)"
    and "get_first_timestamp element < get_first_timestamp (records q ! unat (readIndex q)) \<or>
         get_first_timestamp (records q ! unat (readIndex q))
           + occupancy q * expected_tick_difference
             * get_num_frames (records q ! unat (readIndex q)) < get_first_timestamp element"
  shows "FixedRateQueueModel_lower_bound base expected_tick_difference q element False
           = (Inr End, q)"
  using assms by (auto simp add: FixedRateQueueModel_lower_bound_def Let_def end_q_def)

lemma fast_path_in_range:
  assumes wf: "wf_queue q"
    and etd: "expected_tick_difference \<noteq> 0"
    and fpr: "get_num_frames (records q ! unat (readIndex q)) \<noteq> 0"
    and inr: "\<not> (get_first_timestamp element < get_first_timestamp (records q ! unat (readIndex q)) \<or>
         get_first_timestamp (records q ! unat (readIndex q))
           + occupancy q * expected_tick_difference
             * get_num_frames (records q ! unat (readIndex q)) < get_first_timestamp element)"
  shows "\<exists>i off. FixedRateQueueModel_lower_bound base expected_tick_difference q element False
                 = (Inr (Iterator i), q) \<and>
           off = (unat (get_first_timestamp element)
                    - unat (get_first_timestamp (records q ! unat (readIndex q))))
                  div unat expected_tick_difference
                  div unat (get_num_frames (records q ! unat (readIndex q))) \<and>
           off \<le> unat (occupancy q) \<and>
           unat i = (let s = (unat (readIndex q) + off) mod 4294967296
                     in if unat (size_q q) \<le> s then s - unat (size_q q) else s)"
proof -
  define tw where "tw = get_first_timestamp element"
  define lw where "lw = get_first_timestamp (records q ! unat (readIndex q))"
  define fw where "fw = get_num_frames (records q ! unat (readIndex q))"
  define off where "off = (tw - lw) div expected_tick_difference div fw"
  define sw where "sw = readIndex q + (ucast off :: 32 word)"
  have inr': "\<not> (tw < lw \<or> lw + occupancy q * expected_tick_difference * fw < tw)"
    using inr unfolding tw_def lw_def fw_def .
  have r: "FixedRateQueueModel_lower_bound base expected_tick_difference q element False
             = (Inr (Iterator (if size_q q \<le> sw then sw - size_q q else sw)), q)"
    using fast_path_unfold [OF read_in_storage [OF wf] etd fpr, of base element] inr
    unfolding tw_def lw_def fw_def off_def sw_def by (simp add: Let_def)
  have sw: "unat sw = (unat (readIndex q) + unat off) mod 4294967296"
    unfolding sw_def by (rule unat_index_sum)
  have off: "unat off = (unat tw - unat lw) div unat expected_tick_difference div unat fw"
    unfolding off_def using inr' by (intro unat_offset) (simp add: not_less)
  have le: "unat off \<le> unat (occupancy q)"
    using in_range_offset_le_occupancy [OF inr' etd fpr [folded fw_def]] off by simp
  have "unat (if size_q q \<le> sw then sw - size_q q else sw)
          = (let s = (unat (readIndex q) + unat off) mod 4294967296
             in if unat (size_q q) \<le> s then s - unat (size_q q) else s)"
    by (simp add: wrap_once sw Let_def)
  with r le off show ?thesis
    unfolding tw_def lw_def fw_def by blast
qed

lemma fast_path_floor:
  assumes wf: "wf_queue q"
    and cap: "unat (size_q q) \<le> 2147483648"
    and etd: "expected_tick_difference \<noteq> 0"
    and fpr: "get_num_frames (records q ! unat (readIndex q)) \<noteq> 0"
    and nov: "unat (get_first_timestamp (records q ! unat (readIndex q)))
                + unat (occupancy q) * unat expected_tick_difference
                  * unat (get_num_frames (records q ! unat (readIndex q))) < 18446744073709551616"
    and lo: "unat (get_first_timestamp (records q ! unat (readIndex q)))
               \<le> unat (get_first_timestamp element)"
    and hi: "unat (get_first_timestamp element)
               \<le> unat (get_first_timestamp (records q ! unat (readIndex q)))
                   + (unat (occupancy q) - 1)
                     * (unat expected_tick_difference
                        * unat (get_num_frames (records q ! unat (readIndex q))))"
    and ne: "0 < unat (occupancy q)"
  shows "(unat (get_first_timestamp element)
            - unat (get_first_timestamp (records q ! unat (readIndex q))))
           div (unat expected_tick_difference
                * unat (get_num_frames (records q ! unat (readIndex q)))) < unat (occupancy q) \<and>
         FixedRateQueueModel_lower_bound base expected_tick_difference q element False
           = (Inr (Iterator (of_nat (physical q
                ((unat (get_first_timestamp element)
                    - unat (get_first_timestamp (records q ! unat (readIndex q))))
                  div (unat expected_tick_difference
                       * unat (get_num_frames (records q ! unat (readIndex q)))))))), q)"
proof -
  define T where "T = unat (get_first_timestamp element)"
  define L where "L = unat (get_first_timestamp (records q ! unat (readIndex q)))"
  define D where "D = unat expected_tick_difference"
  define F where "F = unat (get_num_frames (records q ! unat (readIndex q)))"
  define n where "n = unat (occupancy q)"
  have D: "0 < D" using etd by (simp add: D_def unat_gt_0)
  have F: "0 < F" using fpr by (simp add: F_def unat_gt_0)
  have span: "0 < D * F" using D F by simp
  have nov': "L + n * D * F < 18446744073709551616" using nov unfolding L_def n_def D_def F_def .
  have lo': "L \<le> T" using lo unfolding L_def T_def .
  have hi': "T \<le> L + (n - 1) * (D * F)" using hi unfolding L_def T_def n_def D_def F_def .
  have "(n - 1) * (D * F) \<le> n * (D * F)" by (intro mult_le_mono1) simp
  with hi' have "T \<le> L + n * (D * F)" by linarith
  then have hi'': "T \<le> L + n * D * F" by (simp only: mult.assoc)
  have newest: "unat (get_first_timestamp (records q ! unat (readIndex q))
                  + occupancy q * expected_tick_difference
                    * get_num_frames (records q ! unat (readIndex q))) = L + n * D * F"
    using nov' by (simp add: unat_newest_ts L_def n_def D_def F_def)
  have inr: "\<not> (get_first_timestamp element < get_first_timestamp (records q ! unat (readIndex q)) \<or>
         get_first_timestamp (records q ! unat (readIndex q))
           + occupancy q * expected_tick_difference
             * get_num_frames (records q ! unat (readIndex q)) < get_first_timestamp element)"
    using lo' hi'' by (simp add: word_less_nat_alt newest not_less T_def [symmetric] L_def [symmetric])
  obtain i off where
    r: "FixedRateQueueModel_lower_bound base expected_tick_difference q element False
          = (Inr (Iterator i), q)"
    and off: "off = (T - L) div D div F"
    and i: "unat i = (let s = (unat (readIndex q) + off) mod 4294967296
                      in if unat (size_q q) \<le> s then s - unat (size_q q) else s)"
    using fast_path_in_range [OF wf etd fpr inr, of base]
    unfolding T_def L_def D_def F_def by blast
  have off': "off = (T - L) div (D * F)" unfolding off by (simp add: div_mult2_eq)
  have "T - L \<le> (n - 1) * (D * F)" using hi' by linarith
  then have "off \<le> ((n - 1) * (D * F)) div (D * F)" unfolding off' by (rule div_le_mono)
  also have "\<dots> = n - 1" using span by simp
  finally have lt: "off < n" using ne unfolding n_def by linarith
  have "n < unat (size_q q)" unfolding n_def using wf by (rule occupancy_lt_size)
  then have "off < unat (size_q q)" using lt by linarith
  then have "unat i = physical q off"
    unfolding i physical_def using read_lt_size [OF wf] cap by (intro wrap_is_mod)
  then have "of_nat (physical q off) = (of_nat (unat i) :: 32 word)" by simp
  then have "i = of_nat (physical q off)" by simp
  with r lt show ?thesis
    unfolding T_def [symmetric] L_def [symmetric] D_def [symmetric] F_def [symmetric]
      n_def [symmetric] off' by simp
qed

section \<open>The sample data\<close>

lemma wf_example: "wf_queue example_queue"
  by (simp add: wf_queue_def example_queue_def)

lemma occ_example: "occupancy example_queue = 4"
  by (simp add: occupancy_def example_queue_def)

lemma rec_example: "records example_queue ! unat (readIndex example_queue) = frame 100"
  by (simp add: example_queue_def)

lemma ret_example: "retained example_queue = map frame [100, 120, 140, 160]"
  by (simp add: retained_def physical_def occ_example upt_rec) (simp add: example_queue_def)

lemma uni_example: "uniformly_spaced 10 (retained example_queue)"
proof -
  have "{0..<length (map frame [100, 120, 140, 160])} = {0, 1, 2, 3}" by auto
  then show ?thesis
    unfolding uniformly_spaced_def ret_example by (simp add: frame_def)
qed

lemma fast_130: "fst (FixedRateQueueModel_lower_bound base 10 example_queue (frame 130) False) = Inr (Iterator 7)"
  by (simp add: FixedRateQueueModel_lower_bound_def occ_example rec_example Let_def)
    (simp add: example_queue_def frame_def)

lemma recs_example: "records example_queue = map frame [140, 160, 0, 0, 0, 0, 100, 120]"
  by (simp add: example_queue_def)

lemma example_hyps:
  "unat (size_q example_queue) \<le> 2 ^ 31"
  "(10 :: 64 word) \<noteq> 0"
  "retained example_queue \<noteq> []"
  "get_num_frames (hd (retained example_queue)) \<noteq> 0"
  "unat (get_first_timestamp (hd (retained example_queue)))
     + length (retained example_queue) * unat (10 :: 64 word)
       * unat (get_num_frames (hd (retained example_queue))) < 2 ^ 64"
  "get_first_timestamp (hd (retained example_queue)) \<le> get_first_timestamp (frame 130)"
  "get_first_timestamp (frame 130) \<le> get_first_timestamp (last (retained example_queue))"
  by (simp_all add: ret_example frame_def) (simp add: example_queue_def)

section \<open>The recorder's worker loop: lemmas\<close>

lemma do_work_exit_cause:
  "fst (do_work obs r) \<Longrightarrow>
     \<exists>ob \<in> set obs. \<not> run_marker ob \<or> (\<exists>e. pop ob = Popped e \<and> \<not> write_ok ob)"
proof (induction obs arbitrary: r)
  case Nil
  then show ?case by simp
next
  case (Cons ob obs)
  show ?case
  proof (cases "run_marker ob")
    case False
    then show ?thesis by auto
  next
    case True
    show ?thesis
    proof (cases "pop ob")
      case QueueTimeoutExpired
      then have "do_work (ob # obs) r = do_work obs r"
        using True by (simp add: do_work_iteration_def)
      with Cons show ?thesis by auto
    next
      case (Popped e)
      show ?thesis
      proof (cases "write_ok ob")
        case False
        with Popped show ?thesis by auto
      next
        case ok: True
        then obtain r' where "do_work (ob # obs) r = do_work obs r'"
          using True Popped by (simp add: do_work_iteration_def Let_def)
        with Cons show ?thesis by auto
      qed
    qed
  qed
qed

lemma do_work_all_timeouts:
  assumes "\<forall>ob \<in> set obs. run_marker ob \<and> pop ob = QueueTimeoutExpired"
  shows "do_work obs r = (False, r)"
  using assms
proof (induction obs)
  case Nil
  show ?case by simp
next
  case (Cons ob obs)
  have ob: "run_marker ob" "pop ob = QueueTimeoutExpired"
    using Cons.prems by simp_all
  have "\<forall>ob \<in> set obs. run_marker ob \<and> pop ob = QueueTimeoutExpired"
    using Cons.prems by simp
  then have "do_work obs r = (False, r)" by (rule Cons.IH)
  moreover have "do_work (ob # obs) r = do_work obs r"
    by (simp add: ob do_work_iteration_def)
  ultimately show ?case by simp
qed

section \<open>The source emulator without dropout: lemmas\<close>

lemma conf_no_dropout:
  assumes "\<forall>i. 0 \<le> dis i"
  shows "conf_m_dropouts 0 random_population_size dis = [True]"
  using assms by (simp add: conf_m_dropouts_def)

lemma unat_ucast_32_64: "unat (ucast (w :: 32 word) :: 64 word) = unat w"
proof -
  have "unat w < 4294967296" using unsigned_less [of w, where ?'a = nat] by simp
  then have "unat w < 18446744073709551616" by linarith
  then show ?thesis by (simp add: unsigned_ucast_eq take_bit_eq_mod)
qed

lemma unat_record_position:
  fixes off :: "32 word" and sz :: "64 word"
  assumes "unat sz < 4294967296"
  shows "unat (ucast off * sz) = unat off * unat sz"
proof -
  have "unat off < 4294967296" using unsigned_less [of off, where ?'a = nat] by simp
  then have "unat off \<le> 4294967295" by linarith
  moreover have "unat sz \<le> 4294967295" using assms by linarith
  ultimately have "unat off * unat sz \<le> 4294967295 * 4294967295" by (rule mult_le_mono)
  then have "unat off * unat sz < 18446744073709551616" by linarith
  then have "(unat off * unat sz) mod 18446744073709551616 = unat off * unat sz" by simp
  then show ?thesis by (simp add: unat_word_ariths unat_ucast_32_64)
qed

lemma unat_next_offset:
  fixes off :: "32 word"
  assumes "unat off < 4294967295"
  shows "unat (off + 1) = Suc (unat off)"
proof -
  have "(unat off + 1) mod 4294967296 = unat off + 1" using assms by simp
  then show ?thesis by (simp add: unat_word_ariths)
qed

lemma offset_below_limit:
  assumes "whole_records s"
  shows "unat (offset s) < 4294967295"
proof -
  have "unat (offset s) * unat (sizeof_ReadoutType s) \<le> unat (source_size s)"
    and pos: "0 < unat (sizeof_ReadoutType s)"
    and lim: "unat (source_size s) div unat (sizeof_ReadoutType s) < 4294967295"
    using assms by (simp_all add: whole_records_def)
  then have "unat (offset s) \<le> unat (source_size s) div unat (sizeof_ReadoutType s)"
    by (simp add: less_eq_div_iff_mult_less_eq)
  with lim show ?thesis by linarith
qed

lemma next_record_in_file:
  assumes wr: "whole_records s"
  defines "offset1 \<equiv> (if ucast (offset s) = scast (num_elem s) * sizeof_ReadoutType s \<or>
                        ucast (offset s + 1) * sizeof_ReadoutType s > source_size s
                     then 0 else offset s)"
  shows "unat offset1 * unat (sizeof_ReadoutType s) + unat (sizeof_ReadoutType s)
           \<le> unat (source_size s)"
    and "unat offset1 < 4294967295"
proof -
  have sz: "unat (sizeof_ReadoutType s) < 4294967296"
    and one: "unat (sizeof_ReadoutType s) \<le> unat (source_size s)"
    using wr by (simp_all add: whole_records_def)
  have lim: "unat (offset s) < 4294967295" using wr by (rule offset_below_limit)
  show "unat offset1 * unat (sizeof_ReadoutType s) + unat (sizeof_ReadoutType s)
           \<le> unat (source_size s)"
  proof (cases "ucast (offset s) = scast (num_elem s) * sizeof_ReadoutType s \<or>
                 ucast (offset s + 1) * sizeof_ReadoutType s > source_size s")
    case True
    then have "offset1 = 0" by (simp add: offset1_def)
    then show ?thesis using one by simp
  next
    case False
    then have o: "offset1 = offset s" by (simp add: offset1_def)
    from False have "ucast (offset s + 1) * sizeof_ReadoutType s \<le> source_size s"
      by (simp add: not_less)
    then have "unat (ucast (offset s + 1) * sizeof_ReadoutType s) \<le> unat (source_size s)"
      by (simp add: word_le_nat_alt)
    then have "Suc (unat (offset s)) * unat (sizeof_ReadoutType s) \<le> unat (source_size s)"
      by (simp only: unat_record_position [OF sz] unat_next_offset [OF lim])
    then show ?thesis unfolding o by simp
  qed
  show "unat offset1 < 4294967295" using lim by (simp add: offset1_def)
qed

lemma iteration_no_dropout:
  assumes tab: "m_dropouts s = [True]" and idx: "dropout_index s = 0" and wr: "whole_records s"
  shows "\<exists>s'. run_produce_iteration s = Inr s' \<and>
           length (m_raw_data_sink s') = Suc (length (m_raw_data_sink s)) \<and>
           m_packet_count_tot s' = m_packet_count_tot s + 1 \<and>
           m_dropouts s' = [True] \<and> dropout_index s' = 0 \<and> whole_records s'"
proof -
  define offset1 where "offset1 = (if ucast (offset s) = scast (num_elem s) * sizeof_ReadoutType s \<or>
                        ucast (offset s + 1) * sizeof_ReadoutType s > source_size s
                     then 0 else offset s)"
  have sz: "unat (sizeof_ReadoutType s) < 4294967296"
    using wr by (simp add: whole_records_def)
  have fits: "unat offset1 * unat (sizeof_ReadoutType s) + unat (sizeof_ReadoutType s)
           \<le> unat (source_size s)"
    and lim: "unat offset1 < 4294967295"
    using next_record_in_file [OF wr] unfolding offset1_def by simp_all
  have inb: "\<not> unat (source_size s)
                 < unat (ucast offset1 * sizeof_ReadoutType s) + unat (sizeof_ReadoutType s)"
    using fits by (simp add: unat_record_position [OF sz] not_less)
  define s' where "s' = s\<lparr>m_raw_data_sink := m_raw_data_sink s @ [(offset1, timestamp s)],
                            offset := offset1 + 1,
                            m_packet_count := m_packet_count s + 1,
                            m_packet_count_tot := m_packet_count_tot s + 1,
                            dropout_index := 0,
                            timestamp := timestamp s + m_time_tick_diff s * 12\<rparr>"
  have step: "run_produce_iteration s = Inr s'"
    using tab idx inb
    unfolding run_produce_iteration_def offset1_def [symmetric] s'_def
    by (simp add: Let_def)
  have "unat (offset1 + 1) * unat (sizeof_ReadoutType s) \<le> unat (source_size s)"
    using fits by (simp add: unat_next_offset [OF lim])
  then have "whole_records s'"
    using wr by (simp add: whole_records_def s'_def)
  then show ?thesis using step tab by (simp add: s'_def)
qed

lemma run_produce_no_dropout:
  assumes "m_dropouts s = [True]" "dropout_index s = 0" "whole_records s"
  shows "\<exists>s'. run_produce ms s = Inr s' \<and>
           length (m_raw_data_sink s') = length (m_raw_data_sink s) + length (takeWhile (\<lambda>m. m) ms) \<and>
           m_packet_count_tot s' = m_packet_count_tot s + of_nat (length (takeWhile (\<lambda>m. m) ms))"
  using assms
proof (induction ms arbitrary: s)
  case Nil
  then show ?case by simp
next
  case (Cons m ms)
  show ?case
  proof (cases m)
    case False
    then show ?thesis by simp
  next
    case True
    obtain s1 where s1: "run_produce_iteration s = Inr s1"
      "length (m_raw_data_sink s1) = Suc (length (m_raw_data_sink s))"
      "m_packet_count_tot s1 = m_packet_count_tot s + 1"
      "m_dropouts s1 = [True]" "dropout_index s1 = 0" "whole_records s1"
      using iteration_no_dropout [OF Cons.prems] by blast
    obtain s' where s': "run_produce ms s1 = Inr s'"
      "length (m_raw_data_sink s') = length (m_raw_data_sink s1) + length (takeWhile (\<lambda>m. m) ms)"
      "m_packet_count_tot s' = m_packet_count_tot s1 + of_nat (length (takeWhile (\<lambda>m. m) ms))"
      using Cons.IH [OF s1(4,5,6)] by blast
    have "run_produce (m # ms) s = run_produce ms s1" using True s1(1) by simp
    moreover have "length (takeWhile (\<lambda>m. m) (m # ms)) = Suc (length (takeWhile (\<lambda>m. m) ms))"
      using True by simp
    ultimately show ?thesis using s1(2,3) s' by (auto simp add: algebra_simps)
  qed
qed

lemma empty_file_faults:
  "run_produce [True] (replay\<lparr>source_size := 0\<rparr>) = Inl OutOfBounds"
  by (simp add: replay_def run_produce_iteration_def Let_def conf_m_dropouts_def)

section \<open>Delegation and frame properties of the fixed-rate lookup\<close>

text \<open>
  C6. With \<open>with_errors = true\<close> the fixed-rate lookup returns exactly what the inherited
  binary-search lookup returns for the same queue and element, whatever that lookup is and
  whatever the tick spacing (even a spacing of zero, on which the fast path would divide by
  zero): the fast path's arithmetic plays no part.
\<close>

theorem lower_bound_with_errors_delegates:
  "FixedRateQueueModel_lower_bound base expected_tick_difference q element True
     = base q element True"
  by (simp add: FixedRateQueueModel_lower_bound_def)

text \<open>
  C7. The fast path (\<open>with_errors = false\<close>) leaves the queue as it found it: capacity,
  stored records, read cursor and write cursor are the same after the call, for every
  queue state and element, also when the call ends in a fault.
\<close>

theorem lower_bound_fast_path_mutates_nothing:
  "snd (FixedRateQueueModel_lower_bound base expected_tick_difference q element False) = q"
  by (simp add: FixedRateQueueModel_lower_bound_def Let_def)

text \<open>
  C4. On the fast path, with \<open>last_ts\<close> the timestamp of the record at the read cursor,
  \<open>occ\<close> the occupancy, \<open>fpr\<close> that record's frame count and
  \<open>newest_ts = last_ts + occ * expected_tick_difference * fpr\<close> (a 64-bit sum), the call
  returns \<open>end()\<close> exactly when the target is below \<open>last_ts\<close> or above \<open>newest_ts\<close>,
  and otherwise an Iterator at \<open>start_index + ((t - last_ts) / expected_tick_difference) / fpr\<close>
  (a 32-bit sum of truncating quotients), less the capacity once when the sum is not below
  it (given a nonzero tick spacing and frame count, without which the C++ divides by
  zero). Neither the conversion to \<open>int64_t\<close> nor the truncation to \<open>uint32_t\<close> changes
  the quotient, and for a capacity of at most \<open>2^31\<close> the 32-bit sum is the exact sum.
\<close>

theorem lower_bound_fast_path_result:
  assumes wf: "wf_queue q"
  shows "let t = unat (get_first_timestamp element);
             start_index = unat (readIndex q);
             last_ts = unat (get_first_timestamp (records q ! start_index));
             occ = unat (occupancy q);
             fpr = unat (get_num_frames (records q ! start_index));
             etd = unat expected_tick_difference;
             newest_ts = (last_ts + occ * etd * fpr) mod 2 ^ 64;
             s = (start_index + (t - last_ts) div etd div fpr) mod 2 ^ 32;
             r = fst (FixedRateQueueModel_lower_bound base expected_tick_difference q element False)
         in (r = Inr End \<longleftrightarrow> t < last_ts \<or> newest_ts < t) \<and>
            (\<not> (t < last_ts \<or> newest_ts < t) \<and> etd \<noteq> 0 \<and> fpr \<noteq> 0 \<longrightarrow>
               (\<exists>i. r = Inr (Iterator i) \<and>
                    unat i = (if unat (size_q q) \<le> s then s - unat (size_q q) else s)) \<and>
               (unat (size_q q) \<le> 2 ^ 31 \<longrightarrow> s = start_index + (t - last_ts) div etd div fpr))"
proof -
  define tw where "tw = get_first_timestamp element"
  define lw where "lw = get_first_timestamp (records q ! unat (readIndex q))"
  define fw where "fw = get_num_frames (records q ! unat (readIndex q))"
  define nw where "nw = lw + occupancy q * expected_tick_difference * fw"
  define r where "r = fst (FixedRateQueueModel_lower_bound base expected_tick_difference q element False)"
  have out: "(tw < lw \<or> nw < tw) \<longleftrightarrow>
      (unat tw < unat lw \<or>
       (unat lw + unat (occupancy q) * unat expected_tick_difference * unat fw)
          mod 18446744073709551616 < unat tw)"
    unfolding nw_def by (simp add: word_less_nat_alt unat_newest_ts)
  have 1: "r = Inr End \<longleftrightarrow> (tw < lw \<or> nw < tw)"
    unfolding r_def tw_def lw_def fw_def nw_def
    using read_in_storage [OF wf] by (rule fast_path_end_iff)
  have 2: "(\<exists>i. r = Inr (Iterator i) \<and>
             unat i = (let s = (unat (readIndex q)
                                + (unat tw - unat lw) div unat expected_tick_difference div unat fw)
                               mod 4294967296
                       in if unat (size_q q) \<le> s then s - unat (size_q q) else s)) \<and>
           (unat (size_q q) \<le> 2147483648 \<longrightarrow>
              unat (readIndex q)
                + (unat tw - unat lw) div unat expected_tick_difference div unat fw < 4294967296)"
    if inr: "\<not> (tw < lw \<or> nw < tw)" and etd: "expected_tick_difference \<noteq> 0" and fpr: "fw \<noteq> 0"
  proof -
    obtain i off where
      "FixedRateQueueModel_lower_bound base expected_tick_difference q element False
          = (Inr (Iterator i), q)"
      and off: "off = (unat tw - unat lw) div unat expected_tick_difference div unat fw"
      and le: "off \<le> unat (occupancy q)"
      and i: "unat i = (let s = (unat (readIndex q) + off) mod 4294967296
                        in if unat (size_q q) \<le> s then s - unat (size_q q) else s)"
      using fast_path_in_range [OF wf etd fpr [unfolded fw_def] inr [unfolded tw_def lw_def nw_def fw_def], of base]
      unfolding tw_def lw_def fw_def by blast
    then have "r = Inr (Iterator i)" by (simp add: r_def)
    moreover have "unat (readIndex q) + off < 4294967296" if "unat (size_q q) \<le> 2147483648"
      using le occupancy_lt_size [OF wf] read_lt_size [OF wf] that by linarith
    ultimately show ?thesis using i unfolding off by blast
  qed
  have nz: "unat expected_tick_difference \<noteq> 0 \<longleftrightarrow> expected_tick_difference \<noteq> 0"
    "unat fw \<noteq> 0 \<longleftrightarrow> fw \<noteq> 0"
    by (simp_all add: unat_eq_0)
  show ?thesis
    unfolding Let_def pow64 pow32 pow31 nz
    unfolding r_def [symmetric] tw_def [symmetric] lw_def [symmetric] fw_def [symmetric] nz
    using 1 2 out by (auto simp add: Let_def)
qed

theorem lower_bound_fast_path_result_witness:
  "wf_queue example_queue \<and> (10 :: 64 word) \<noteq> 0 \<and>
   get_num_frames (records example_queue ! unat (readIndex example_queue)) \<noteq> 0 \<and>
   (\<exists>i. fst (FixedRateQueueModel_lower_bound (BinarySearchQueueModel_lower_bound (\<lambda>_. True)) 10
              example_queue (frame 150) False) = Inr (Iterator i) \<and> unat i = 0)"
  using lower_bound_fast_path_result [OF wf_example, where expected_tick_difference = 10
       and base = "BinarySearchQueueModel_lower_bound (\<lambda>_. True)" and element = "frame 150"]
  by (simp add: wf_example occ_example rec_example Let_def)
    (simp add: example_queue_def frame_def)

text \<open>
  C5. In a well-formed queue, for every target that passes the bounds check, the record
  offset is at most the occupancy, the occupancy is at most the capacity, so the read
  cursor plus the offset is below twice the capacity, and the index of the returned
  Iterator is below the capacity.
\<close>

theorem lower_bound_target_index_in_storage:
  assumes wf: "wf_queue q"
    and etd: "expected_tick_difference \<noteq> 0"
    and fpr: "get_num_frames (records q ! unat (readIndex q)) \<noteq> 0"
    and lo: "get_first_timestamp (records q ! unat (readIndex q)) \<le> get_first_timestamp element"
    and hi: "get_first_timestamp element
               \<le> get_first_timestamp (records q ! unat (readIndex q))
                   + occupancy q * expected_tick_difference
                     * get_num_frames (records q ! unat (readIndex q))"
  shows "let start_index = unat (readIndex q);
             record_offset =
               (unat (get_first_timestamp element)
                  - unat (get_first_timestamp (records q ! start_index)))
                div unat expected_tick_difference
                div unat (get_num_frames (records q ! start_index))
         in record_offset \<le> unat (occupancy q) \<and>
            unat (occupancy q) \<le> unat (size_q q) \<and>
            start_index < unat (size_q q) \<and>
            start_index + record_offset < 2 * unat (size_q q) \<and>
            (\<exists>target_index.
               fst (FixedRateQueueModel_lower_bound base expected_tick_difference q element False)
                 = Inr (Iterator target_index) \<and>
               unat target_index < unat (size_q q))"
proof -
  have inr: "\<not> (get_first_timestamp element < get_first_timestamp (records q ! unat (readIndex q)) \<or>
         get_first_timestamp (records q ! unat (readIndex q))
           + occupancy q * expected_tick_difference
             * get_num_frames (records q ! unat (readIndex q)) < get_first_timestamp element)"
    using lo hi by (simp add: not_less)
  obtain i off where
    r: "FixedRateQueueModel_lower_bound base expected_tick_difference q element False
          = (Inr (Iterator i), q)"
    and off: "off = (unat (get_first_timestamp element)
                    - unat (get_first_timestamp (records q ! unat (readIndex q))))
                  div unat expected_tick_difference
                  div unat (get_num_frames (records q ! unat (readIndex q)))"
    and le: "off \<le> unat (occupancy q)"
    and i: "unat i = (let s = (unat (readIndex q) + off) mod 4294967296
                      in if unat (size_q q) \<le> s then s - unat (size_q q) else s)"
    using fast_path_in_range [OF wf etd fpr inr, of base] by blast
  have occ: "unat (occupancy q) < unat (size_q q)" using wf by (rule occupancy_lt_size)
  have rd: "unat (readIndex q) < unat (size_q q)" using wf by (rule read_lt_size)
  have "off < unat (size_q q)" using le occ by linarith
  then have "unat i < unat (size_q q)"
    unfolding i using rd size_lt_2p32 [of q] by (intro wrapped_index_lt)
  moreover have "unat (readIndex q) + off < 2 * unat (size_q q)" using rd le occ by linarith
  ultimately show ?thesis
    unfolding Let_def off [symmetric] using r le occ rd by simp
qed

theorem lower_bound_target_index_in_storage_witness:
  "wf_queue example_queue \<and> (10 :: 64 word) \<noteq> 0 \<and>
   get_num_frames (records example_queue ! unat (readIndex example_queue)) \<noteq> 0 \<and>
   get_first_timestamp (records example_queue ! unat (readIndex example_queue))
     \<le> get_first_timestamp (frame 170) \<and>
   get_first_timestamp (frame 170)
     \<le> get_first_timestamp (records example_queue ! unat (readIndex example_queue))
         + occupancy example_queue * 10
           * get_num_frames (records example_queue ! unat (readIndex example_queue)) \<and>
   (\<exists>target_index.
      fst (FixedRateQueueModel_lower_bound (BinarySearchQueueModel_lower_bound (\<lambda>_. True)) 10
             example_queue (frame 170) False) = Inr (Iterator target_index) \<and>
      unat target_index < unat (size_q example_queue))"
proof -
  have h: "get_num_frames (records example_queue ! unat (readIndex example_queue)) \<noteq> 0"
    "get_first_timestamp (records example_queue ! unat (readIndex example_queue))
       \<le> get_first_timestamp (frame 170)"
    "get_first_timestamp (frame 170)
       \<le> get_first_timestamp (records example_queue ! unat (readIndex example_queue))
           + occupancy example_queue * 10
             * get_num_frames (records example_queue ! unat (readIndex example_queue))"
    by (simp_all add: rec_example occ_example frame_def)
  have e: "(10 :: 64 word) \<noteq> 0" by simp
  show ?thesis
    using lower_bound_target_index_in_storage [OF wf_example e h,
        where base = "BinarySearchQueueModel_lower_bound (\<lambda>_. True)"] h wf_example
    by (simp add: Let_def)
qed

text \<open>
  C3, as the code has it. The window of the fast path is not bounded above by the newest
  retained record's timestamp but by the estimate
  \<open>newest_ts = last_ts + occ * expected_tick_difference * fpr\<close>: in a well-formed queue,
  every target below the timestamp of the record at the read cursor (the oldest retained
  record when the buffer is not empty) or above \<open>newest_ts\<close> yields \<open>end()\<close>, without
  a fault and with the queue unchanged.
\<close>

theorem lower_bound_outside_estimated_window:
  assumes wf: "wf_queue q"
  shows "let t = unat (get_first_timestamp element);
             last_ts = unat (get_first_timestamp (records q ! unat (readIndex q)));
             newest_ts = (last_ts + unat (occupancy q) * unat expected_tick_difference
                            * unat (get_num_frames (records q ! unat (readIndex q)))) mod 2 ^ 64
         in (retained q \<noteq> [] \<longrightarrow>
               get_first_timestamp (hd (retained q))
                 = get_first_timestamp (records q ! unat (readIndex q))) \<and>
            (t < last_ts \<or> newest_ts < t \<longrightarrow>
               FixedRateQueueModel_lower_bound base expected_tick_difference q element False
                 = (Inr End, q))"
proof -
  have "FixedRateQueueModel_lower_bound base expected_tick_difference q element False
          = (Inr End, q)"
    if "unat (get_first_timestamp element)
          < unat (get_first_timestamp (records q ! unat (readIndex q))) \<or>
        (unat (get_first_timestamp (records q ! unat (readIndex q)))
           + unat (occupancy q) * unat expected_tick_difference
             * unat (get_num_frames (records q ! unat (readIndex q)))) mod 18446744073709551616
          < unat (get_first_timestamp element)"
    using that
    by (intro fast_path_out_of_range read_in_storage [OF wf])
       (simp add: word_less_nat_alt unat_newest_ts)
  then show ?thesis
    unfolding Let_def pow64 using hd_retained [OF wf] by simp
qed

theorem lower_bound_outside_estimated_window_witness:
  "wf_queue example_queue \<and>
   (100 + 4 * 10 * 2) mod 2 ^ 64 < (181 :: nat) \<and>
   FixedRateQueueModel_lower_bound (BinarySearchQueueModel_lower_bound (\<lambda>_. True)) 10
     example_queue (frame 181) False = (Inr End, example_queue) \<and>
   retained example_queue \<noteq> [] \<and>
   get_first_timestamp (hd (retained example_queue)) = 100"
  using lower_bound_outside_estimated_window [OF wf_example, where expected_tick_difference = 10
       and base = "BinarySearchQueueModel_lower_bound (\<lambda>_. True)" and element = "frame 181"]
  by (simp add: wf_example occ_example rec_example ret_example Let_def)
    (simp add: frame_def)

text \<open>
  C3 as stated fails: in the sample buffer the newest retained record has timestamp 160,
  and the target 170, which is above it, yields the Iterator at slot 1 (the record 160),
  not \<open>end()\<close>.
\<close>

theorem lower_bound_above_newest_record_counterexample:
  "wf_queue example_queue \<and>
   map get_first_timestamp (retained example_queue) = [100, 120, 140, 160] \<and>
   get_first_timestamp (last (retained example_queue)) < get_first_timestamp (frame 170) \<and>
   fst (FixedRateQueueModel_lower_bound (BinarySearchQueueModel_lower_bound (\<lambda>_. True)) 10
          example_queue (frame 170) False) = Inr (Iterator 1) \<and>
   records example_queue ! 1 = frame 160"
  by (simp add: wf_example FixedRateQueueModel_lower_bound_def occ_example rec_example
        ret_example Let_def)
    (simp add: example_queue_def frame_def)

text \<open>
  C9. On an empty buffer (occupancy 0) nothing is retained and \<open>newest_ts = last_ts\<close>, so
  the fast path returns \<open>end()\<close> for every target but the timestamp stored in the slot at
  the read cursor; for that one target (with a nonzero tick spacing and frame count, so
  that the divisions are defined) it returns the Iterator at the read cursor.
\<close>

theorem lower_bound_on_empty_queue:
  assumes wf: "wf_queue q"
    and empty: "occupancy q = 0"
  shows "let t = get_first_timestamp element;
             last_ts = get_first_timestamp (records q ! unat (readIndex q));
             fpr = get_num_frames (records q ! unat (readIndex q));
             newest_ts = last_ts + occupancy q * expected_tick_difference * fpr;
             r = FixedRateQueueModel_lower_bound base expected_tick_difference q element False
         in retained q = [] \<and> newest_ts = last_ts \<and>
            (t \<noteq> last_ts \<longrightarrow> r = (Inr End, q)) \<and>
            (t = last_ts \<and> expected_tick_difference \<noteq> 0 \<and> fpr \<noteq> 0
               \<longrightarrow> r = (Inr (Iterator (readIndex q)), q))"
proof -
  have rd: "unat (readIndex q) < length (records q)" using wf by (rule read_in_storage)
  have ret: "retained q = []" using empty by (simp add: retained_def)
  have "\<not> size_q q \<le> readIndex q" using wf by (simp add: wf_queue_def not_le)
  then show ?thesis
    using rd ret empty
    by (auto simp add: FixedRateQueueModel_lower_bound_def Let_def end_q_def not_le)
qed

theorem lower_bound_on_empty_queue_witness:
  "wf_queue empty_queue \<and> occupancy empty_queue = 0 \<and> (10 :: 64 word) \<noteq> 0 \<and>
   get_num_frames (records empty_queue ! unat (readIndex empty_queue)) \<noteq> 0 \<and>
   get_first_timestamp (frame 100)
     = get_first_timestamp (records empty_queue ! unat (readIndex empty_queue)) \<and>
   get_first_timestamp (frame 101)
     \<noteq> get_first_timestamp (records empty_queue ! unat (readIndex empty_queue)) \<and>
   retained empty_queue = [] \<and>
   FixedRateQueueModel_lower_bound (BinarySearchQueueModel_lower_bound (\<lambda>_. True)) 10
     empty_queue (frame 100) False = (Inr (Iterator 6), empty_queue) \<and>
   FixedRateQueueModel_lower_bound (BinarySearchQueueModel_lower_bound (\<lambda>_. True)) 10
     empty_queue (frame 101) False = (Inr End, empty_queue)"
proof -
  have wf: "wf_queue empty_queue"
    by (simp add: wf_queue_def empty_queue_def example_queue_def)
  have occ: "occupancy empty_queue = 0"
    by (simp add: occupancy_def empty_queue_def example_queue_def)
  have rec: "records empty_queue ! 6 = frame 100"
    by (simp add: empty_queue_def example_queue_def)
  have rd: "readIndex empty_queue = 6"
    by (simp add: empty_queue_def example_queue_def)
  show ?thesis
    using lower_bound_on_empty_queue [OF wf occ, where expected_tick_difference = 10
       and base = "BinarySearchQueueModel_lower_bound (\<lambda>_. True)" and element = "frame 100"]
      lower_bound_on_empty_queue [OF wf occ, where expected_tick_difference = 10
       and base = "BinarySearchQueueModel_lower_bound (\<lambda>_. True)" and element = "frame 101"]
    by (simp add: wf occ rec rd Let_def frame_def)
qed

text \<open>
  C1, as the code has it. The fast path extrapolates with a truncating division, so it
  needs uniformly spaced data and it lands on the record whose ticks contain the target:
  for a well-formed queue of capacity at most \<open>2^31\<close> whose retained records are uniformly
  spaced (with no 64-bit overflow of the window estimate) and a target between the oldest
  and the newest retained timestamp, the returned Iterator refers to the retained record
  with the largest first timestamp that is at most the target. This is the record with
  the smallest first timestamp at or above the target exactly when the target is the first
  timestamp of a retained record.
\<close>

theorem lower_bound_uniform_returns_covering_record:
  assumes wf: "wf_queue q"
    and cap: "unat (size_q q) \<le> 2 ^ 31"
    and etd: "expected_tick_difference \<noteq> 0"
    and ne: "retained q \<noteq> []"
    and fpr: "get_num_frames (hd (retained q)) \<noteq> 0"
    and uni: "uniformly_spaced expected_tick_difference (retained q)"
    and nov: "unat (get_first_timestamp (hd (retained q)))
                + length (retained q) * unat expected_tick_difference
                  * unat (get_num_frames (hd (retained q))) < 2 ^ 64"
    and lo: "get_first_timestamp (hd (retained q)) \<le> get_first_timestamp element"
    and hi: "get_first_timestamp element \<le> get_first_timestamp (last (retained q))"
  shows "\<exists>k<length (retained q). \<exists>i.
           fst (FixedRateQueueModel_lower_bound base expected_tick_difference q element False)
             = Inr (Iterator i) \<and>
           unat i = physical q k \<and>
           records q ! unat i = retained q ! k \<and>
           get_first_timestamp (retained q ! k) \<le> get_first_timestamp element \<and>
           (\<forall>j<length (retained q).
              get_first_timestamp (retained q ! j) \<le> get_first_timestamp element
              \<longrightarrow> get_first_timestamp (retained q ! j) \<le> get_first_timestamp (retained q ! k)) \<and>
           ((\<exists>m<length (retained q).
               get_first_timestamp (retained q ! m) = get_first_timestamp element)
              \<longrightarrow> get_first_timestamp (retained q ! k) = get_first_timestamp element)"
proof -
  define T where "T = unat (get_first_timestamp element)"
  define L where "L = unat (get_first_timestamp (records q ! unat (readIndex q)))"
  define s where "s = unat expected_tick_difference
                        * unat (get_num_frames (records q ! unat (readIndex q)))"
  define n where "n = unat (occupancy q)"
  define k where "k = (T - L) div s"
  note win = uniform_window [OF wf uni ne]
  have hd: "hd (retained q) = records q ! unat (readIndex q)" using wf ne by (rule hd_retained)
  have ts: "unat (get_first_timestamp (retained q ! j)) = L + j * s" if "j < n" for j
    using uniform_timestamp [OF uni that [unfolded n_def]]
    unfolding nth_retained [OF that [unfolded n_def]] win(2) L_def s_def .
  have spos: "0 < s"
    using etd fpr unfolding s_def hd by (simp add: unat_gt_0)
  have lo': "L \<le> T" using lo unfolding hd T_def L_def by (simp add: word_le_nat_alt)
  have hi': "T \<le> L + (n - 1) * s"
    using hi win(3) unfolding T_def L_def s_def n_def by (simp add: word_le_nat_alt)
  have cap': "unat (size_q q) \<le> 2147483648" using cap by (simp only: pow31)
  have nov': "unat (get_first_timestamp (records q ! unat (readIndex q)))
                + unat (occupancy q) * unat expected_tick_difference
                  * unat (get_num_frames (records q ! unat (readIndex q))) < 18446744073709551616"
    using nov by (simp only: pow64 hd length_retained)
  have fl: "k < n \<and>
      FixedRateQueueModel_lower_bound base expected_tick_difference q element False
        = (Inr (Iterator (of_nat (physical q k))), q)"
    unfolding k_def T_def L_def s_def n_def
    by (rule fast_path_floor [OF wf cap' etd fpr [unfolded hd] nov'
          lo' [unfolded L_def T_def] hi' [unfolded L_def T_def s_def n_def] win(1)])
  then have kn: "k < n" by simp
  have "k * s \<le> T - L" unfolding k_def by simp
  then have below: "L + k * s \<le> T" using lo' by linarith
  have best: "L + j * s \<le> L + k * s" if "L + j * s \<le> T" for j
  proof -
    have "j * s \<le> T - L" using that by linarith
    then have "j \<le> k" unfolding k_def using spos by (simp add: less_eq_div_iff_mult_less_eq)
    then show ?thesis by simp
  qed
  show ?thesis
  proof (intro exI [of _ k] exI [of _ "of_nat (physical q k)"] conjI allI impI)
    show "k < length (retained q)" using kn by (simp add: length_retained n_def)
    show "fst (FixedRateQueueModel_lower_bound base expected_tick_difference q element False)
             = Inr (Iterator (of_nat (physical q k)))" using fl by simp
    show "unat (of_nat (physical q k) :: 32 word) = physical q k"
      using wf by (rule unat_of_nat_physical)
    show "records q ! unat (of_nat (physical q k) :: 32 word) = retained q ! k"
      using kn by (simp add: unat_of_nat_physical [OF wf] nth_retained n_def)
    show "get_first_timestamp (retained q ! k) \<le> get_first_timestamp element"
      using below ts [OF kn] by (simp add: word_le_nat_alt T_def)
    show "get_first_timestamp (retained q ! j) \<le> get_first_timestamp (retained q ! k)"
      if "j < length (retained q)"
        and "get_first_timestamp (retained q ! j) \<le> get_first_timestamp element" for j
    proof -
      have jn: "j < n" using that(1) by (simp add: length_retained n_def)
      have "L + j * s \<le> T" using that(2) ts [OF jn] by (simp add: word_le_nat_alt T_def)
      then show ?thesis using best ts [OF jn] ts [OF kn] by (simp add: word_le_nat_alt)
    qed
    show "get_first_timestamp (retained q ! k) = get_first_timestamp element"
      if "\<exists>m<length (retained q).
            get_first_timestamp (retained q ! m) = get_first_timestamp element"
    proof -
      from that obtain m where m: "m < length (retained q)"
        "get_first_timestamp (retained q ! m) = get_first_timestamp element" by blast
      have mn: "m < n" using m(1) by (simp add: length_retained n_def)
      have "L + m * s = T" using ts [OF mn] m(2) by (simp add: T_def)
      then have "L + k * s = T" using best [of m] below by linarith
      then have "unat (get_first_timestamp (retained q ! k)) = unat (get_first_timestamp element)"
        using ts [OF kn] by (simp add: T_def)
      then show ?thesis by (simp only: word_unat_eq_iff)
    qed
  qed
qed

theorem lower_bound_uniform_returns_covering_record_witness:
  "wf_queue example_queue \<and> unat (size_q example_queue) \<le> 2 ^ 31 \<and> (10 :: 64 word) \<noteq> 0 \<and>
   retained example_queue \<noteq> [] \<and> get_num_frames (hd (retained example_queue)) \<noteq> 0 \<and>
   uniformly_spaced 10 (retained example_queue) \<and>
   unat (get_first_timestamp (hd (retained example_queue)))
     + length (retained example_queue) * unat (10 :: 64 word)
       * unat (get_num_frames (hd (retained example_queue))) < 2 ^ 64 \<and>
   get_first_timestamp (hd (retained example_queue)) \<le> get_first_timestamp (frame 130) \<and>
   get_first_timestamp (frame 130) \<le> get_first_timestamp (last (retained example_queue)) \<and>
   (\<exists>k<length (retained example_queue). \<exists>i.
      fst (FixedRateQueueModel_lower_bound (BinarySearchQueueModel_lower_bound (\<lambda>_. True)) 10
             example_queue (frame 130) False) = Inr (Iterator i) \<and>
      records example_queue ! unat i = retained example_queue ! k \<and>
      get_first_timestamp (retained example_queue ! k) \<le> get_first_timestamp (frame 130))"
  using lower_bound_uniform_returns_covering_record
      [OF wf_example example_hyps(1-4) uni_example example_hyps(5-7),
       where base = "BinarySearchQueueModel_lower_bound (\<lambda>_. True)"]
    wf_example uni_example example_hyps(1-7)
  by blast

text \<open>
  C1 as stated fails: the sample buffer retains the timestamps 100, 120, 140, 160 in
  non-decreasing order, the target 130 lies between the oldest and the newest, and the
  fast path returns the Iterator at slot 7, whose record has the timestamp 120, below the
  target; the smallest retained timestamp at or above 130 is 140.
\<close>

theorem lower_bound_smallest_not_below_target_counterexample:
  "wf_queue example_queue \<and>
   map get_first_timestamp (retained example_queue) = [100, 120, 140, 160] \<and>
   sorted (map get_first_timestamp (retained example_queue)) \<and>
   get_first_timestamp (hd (retained example_queue)) \<le> get_first_timestamp (frame 130) \<and>
   get_first_timestamp (frame 130) \<le> get_first_timestamp (last (retained example_queue)) \<and>
   fst (FixedRateQueueModel_lower_bound (BinarySearchQueueModel_lower_bound (\<lambda>_. True)) 10
          example_queue (frame 130) False) = Inr (Iterator 7) \<and>
   get_first_timestamp (records example_queue ! 7) = 120 \<and>
   get_first_timestamp (records example_queue ! 7) < get_first_timestamp (frame 130)"
proof -
  have "map get_first_timestamp (retained example_queue) = [100, 120, 140, 160]"
    by (simp add: ret_example frame_def)
  moreover have "sorted (map get_first_timestamp (retained example_queue))"
    by (simp add: ret_example frame_def)
  moreover have "get_first_timestamp (records example_queue ! 7) = 120"
    "get_first_timestamp (records example_queue ! 7) < get_first_timestamp (frame 130)"
    by (simp_all add: recs_example frame_def)
  ultimately show ?thesis
    using wf_example example_hyps(6,7)
      fast_130 [of "BinarySearchQueueModel_lower_bound (\<lambda>_. True)"]
    by blast
qed

text \<open>
  C8. When \<open>pop\<close> raises the queue timeout, the pass of the worker loop ends in
  \<open>continue\<close> with the recorder as it was: no counter is incremented and \<open>write\<close> is not
  called; the loop goes on with the next observation, and a worker that only ever sees
  timeouts while the run marker is set stays in the loop. The loop is left only at an
  observation where the run marker is cleared or where a record was popped and its write
  failed.
\<close>

theorem do_work_timeout_is_recoverable:
  "do_work_iteration QueueTimeoutExpired ok r = (Continue, r) \<and>
   do_work (\<lparr>run_marker = True, pop = QueueTimeoutExpired, write_ok = ok\<rparr> # obs) r
     = do_work obs r \<and>
   ((\<forall>ob \<in> set obs. run_marker ob \<and> pop ob = QueueTimeoutExpired)
      \<longrightarrow> do_work obs r = (False, r)) \<and>
   (fst (do_work obs r) \<longrightarrow>
      (\<exists>ob \<in> set obs. \<not> run_marker ob \<or> (\<exists>e. pop ob = Popped e \<and> \<not> write_ok ob)))"
  using do_work_exit_cause [of obs r] do_work_all_timeouts [of obs r]
  by (simp add: do_work_iteration_def)

theorem do_work_timeout_is_recoverable_witness:
  "do_work [\<lparr>run_marker = True, pop = QueueTimeoutExpired, write_ok = True\<rparr>,
            \<lparr>run_marker = True, pop = Popped 7, write_ok = True\<rparr>,
            \<lparr>run_marker = True, pop = QueueTimeoutExpired, write_ok = True\<rparr>,
            \<lparr>run_marker = False, pop = QueueTimeoutExpired, write_ok = True\<rparr>] idle
     = (True, \<lparr>m_packets_processed_total = 1, m_packets_processed_since_last_info = 1,
               m_buffered_writer = [(7, True)], flushed = True\<rparr>) \<and>
   do_work [\<lparr>run_marker = True, pop = QueueTimeoutExpired, write_ok = True\<rparr>,
            \<lparr>run_marker = True, pop = QueueTimeoutExpired, write_ok = False\<rparr>] idle
     = (False, idle)"
proof -
  have "\<forall>ob \<in> set [\<lparr>run_marker = True, pop = QueueTimeoutExpired :: nat pop_result,
                          write_ok = False\<rparr>].
          run_marker ob \<and> pop ob = QueueTimeoutExpired"
    by simp
  then have "do_work [\<lparr>run_marker = True, pop = QueueTimeoutExpired, write_ok = True\<rparr>,
            \<lparr>run_marker = True, pop = QueueTimeoutExpired, write_ok = False\<rparr>] idle
     = (False, idle)"
    using do_work_timeout_is_recoverable [where ok = True and r = idle
      and obs = "[\<lparr>run_marker = True, pop = QueueTimeoutExpired, write_ok = False\<rparr>]"]
    by simp
  moreover have "do_work [\<lparr>run_marker = True, pop = QueueTimeoutExpired, write_ok = True\<rparr>,
            \<lparr>run_marker = True, pop = Popped 7, write_ok = True\<rparr>,
            \<lparr>run_marker = True, pop = QueueTimeoutExpired, write_ok = True\<rparr>,
            \<lparr>run_marker = False, pop = QueueTimeoutExpired, write_ok = True\<rparr>] idle
     = (True, \<lparr>m_packets_processed_total = 1, m_packets_processed_since_last_info = 1,
               m_buffered_writer = [(7, True)], flushed = True\<rparr>)"
    by (simp add: do_work_iteration_def idle_def Let_def)
  ultimately show ?thesis by blast
qed

text \<open>
  C10. With a dropout rate of zero (and draws that are never negative, as the uniform
  distribution on \<open>[0, 1)\<close> gives them) the table built by \<open>conf\<close> is the single entry
  \<open>true\<close>; a producer started on it, over a file buffer of whole records with its offset
  inside the buffer, creates a frame in every pass of its loop: no pass faults, after any
  run the sink has received one payload per pass made, and the packet counter has grown by
  as much.
\<close>

theorem zero_dropout_rate_drops_nothing:
  assumes draws: "\<forall>i. 0 \<le> dis i"
    and table: "m_dropouts s = conf_m_dropouts 0 random_population_size dis"
    and start: "dropout_index s = 0"
    and size: "0 < unat (sizeof_ReadoutType s)" "unat (sizeof_ReadoutType s) < 2 ^ 32"
    and buffer: "unat (sizeof_ReadoutType s) \<le> unat (source_size s)"
      "unat (source_size s) div unat (sizeof_ReadoutType s) + 1 < 2 ^ 32"
    and inside: "unat (offset s) * unat (sizeof_ReadoutType s) \<le> unat (source_size s)"
  shows "conf_m_dropouts 0 random_population_size dis = [True] \<and>
         (\<exists>s'. run_produce ms s = Inr s' \<and>
            length (m_raw_data_sink s')
              = length (m_raw_data_sink s) + length (takeWhile (\<lambda>m. m) ms) \<and>
            m_packet_count_tot s'
              = m_packet_count_tot s + of_nat (length (takeWhile (\<lambda>m. m) ms)))"
proof -
  have t: "conf_m_dropouts 0 random_population_size dis = [True]"
    using draws by (rule conf_no_dropout)
  then have tab: "m_dropouts s = [True]" using table by simp
  have "unat (sizeof_ReadoutType s) < 4294967296" using size(2) by (simp only: pow32)
  moreover have "unat (source_size s) div unat (sizeof_ReadoutType s) < 4294967295"
    using buffer(2) unfolding pow32 by linarith
  ultimately have wr: "whole_records s"
    using size(1) buffer(1) inside by (simp add: whole_records_def)
  show ?thesis using t run_produce_no_dropout [OF tab start wr, of ms] by simp
qed

theorem zero_dropout_rate_drops_nothing_witness:
  "(\<forall>i. (0 :: real) \<le> (\<lambda>i. 1 / 2) i) \<and>
   m_dropouts replay = conf_m_dropouts 0 10000 (\<lambda>i. 1 / 2) \<and>
   dropout_index replay = 0 \<and>
   0 < unat (sizeof_ReadoutType replay) \<and> unat (sizeof_ReadoutType replay) < 2 ^ 32 \<and>
   unat (sizeof_ReadoutType replay) \<le> unat (source_size replay) \<and>
   unat (source_size replay) div unat (sizeof_ReadoutType replay) + 1 < 2 ^ 32 \<and>
   unat (offset replay) * unat (sizeof_ReadoutType replay) \<le> unat (source_size replay) \<and>
   conf_m_dropouts 0 10000 (\<lambda>i. 1 / 2) = [True] \<and>
   (\<exists>s'. run_produce [True, True, True, False] replay = Inr s' \<and>
      m_raw_data_sink s' = [(0, 1000), (1, 1300), (0, 1600)] \<and> m_packet_count_tot s' = 3)"
proof -
  have d: "\<forall>i. (0 :: real) \<le> (\<lambda>i. 1 / 2) i" by simp
  have t: "m_dropouts replay = conf_m_dropouts 0 10000 (\<lambda>i. 1 / 2)"
    by (simp add: replay_def)
  have i: "dropout_index replay = 0" by (simp add: replay_def)
  have f: "0 < unat (sizeof_ReadoutType replay)" "unat (sizeof_ReadoutType replay) < 2 ^ 32"
    "unat (sizeof_ReadoutType replay) \<le> unat (source_size replay)"
    "unat (source_size replay) div unat (sizeof_ReadoutType replay) + 1 < 2 ^ 32"
    "unat (offset replay) * unat (sizeof_ReadoutType replay) \<le> unat (source_size replay)"
    by (simp_all add: replay_def)
  have c: "conf_m_dropouts 0 10000 (\<lambda>i. 1 / 2) = [True]"
    using zero_dropout_rate_drops_nothing [OF d t i f] by simp
  then have "\<exists>s'. run_produce [True, True, True, False] replay = Inr s' \<and>
      m_raw_data_sink s' = [(0, 1000), (1, 1300), (0, 1600)] \<and> m_packet_count_tot s' = 3"
    by (simp add: replay_def run_produce_iteration_def Let_def)
  with c show ?thesis using d t i f by blast
qed

end
